theory Spec2Isabelle
  imports Main "HOL-Library.Sublist"
begin

section \<open>Python strings\<close>

text \<open>
  A Python \<open>str\<close> is modelled as a \<open>string\<close>; a \<open>char\<close> stands for one code point
  in the range 0..255. The whitespace of \<open>str.strip\<close>, \<open>str.isspace\<close> and of the
  regular expression class \<open>\s\<close> is the same set of code points in that range.
\<close>

definition is_space :: "char \<Rightarrow> bool" where
  "is_space c = (of_char c \<in> {9, 10, 11, 12, 13, 28, 29, 30, 31, 32, 133, 160 :: nat})"

text \<open>\<open>s.strip()\<close>: whitespace removed at both ends.\<close>

definition lstrip :: "string \<Rightarrow> string" where
  "lstrip s = dropWhile is_space s"

definition rstrip :: "string \<Rightarrow> string" where
  "rstrip s = rev (dropWhile is_space (rev s))"

definition strip :: "string \<Rightarrow> string" where
  "strip s = rstrip (lstrip s)"

text \<open>\<open>old in s\<close>: substring containment.\<close>

fun py_in :: "string \<Rightarrow> string \<Rightarrow> bool" where
  "py_in old [] = (old = [])"
| "py_in old (c # cs) = (prefix old (c # cs) \<or> py_in old cs)"

text \<open>
  \<open>s.replace(old, new)\<close>: one scan from the left; each occurrence found is replaced
  and the scan resumes after it, so occurrences do not overlap and text produced by a
  replacement is not scanned again. With an empty \<open>old\<close>, Python puts \<open>new\<close> before
  every character and at the end.
\<close>

function replace :: "string \<Rightarrow> string \<Rightarrow> string \<Rightarrow> string" where
  "replace old new s =
     (if old = [] then new @ concat (map (\<lambda>c. c # new) s)
      else if s = [] then []
      else if prefix old s then new @ replace old new (drop (length old) s)
      else hd s # replace old new (tl s))"
  by pat_completeness auto
termination
  by (relation "measure (\<lambda>(old, new, s). length s)") auto

declare replace.simps [simp del]

text \<open>
  \<open>s.splitlines()\<close>: the line boundaries below 256 are LF, VT, FF, CR, FS, GS, RS and
  NEL; CR LF counts as one boundary; the boundaries are not kept, and a boundary at the
  very end opens no further line.
\<close>

definition is_linebreak :: "char \<Rightarrow> bool" where
  "is_linebreak c = (of_char c \<in> {10, 11, 12, 13, 28, 29, 30, 133 :: nat})"

fun splitlines_from :: "string \<Rightarrow> string \<Rightarrow> string list" where
  "splitlines_from cur [] = (if cur = [] then [] else [cur])"
| "splitlines_from cur [c] =
     (if is_linebreak c then [cur] else [cur @ [c]])"
| "splitlines_from cur (c # d # cs) =
     (if c = CHR 0x0D \<and> d = CHR 0x0A then cur # splitlines_from [] cs
      else if is_linebreak c then cur # splitlines_from [] (d # cs)
      else splitlines_from (cur @ [c]) (d # cs))"

definition splitlines :: "string \<Rightarrow> string list" where
  "splitlines s = splitlines_from [] s"

text \<open>
  \<open>int(s)\<close> on a \<open>str\<close>, base 10: surrounding whitespace is ignored, then an optional
  sign, then decimal digits in which single underscores may stand between two digits.
  Anything else raises \<open>ValueError\<close> (here \<open>None\<close>). \<open>lim\<close> is the interpreter's
  \<open>sys.get_int_max_str_digits()\<close>: when positive, a text with more digits than that
  raises \<open>ValueError\<close> too; 0 switches the limit off.

  The whitespace that \<open>int\<close> ignores is narrower than that of \<open>str.strip\<close>: of the
  code points below 128 it skips only those of C's \<open>isspace\<close>, so the separators
  U+001C..U+001F make it raise (\<open>int("5\x1f")\<close> is a \<open>ValueError\<close>), while U+0085 and
  U+00A0 are skipped.
\<close>

definition is_int_space :: "char \<Rightarrow> bool" where
  "is_int_space c = (of_char c \<in> {9, 10, 11, 12, 13, 32, 133, 160 :: nat})"

definition int_strip :: "string \<Rightarrow> string" where
  "int_strip s = rev (dropWhile is_int_space (rev (dropWhile is_int_space s)))"

definition is_digit :: "char \<Rightarrow> bool" where
  "is_digit c = (48 \<le> (of_char c :: nat) \<and> (of_char c :: nat) \<le> 57)"

definition digit_val :: "char \<Rightarrow> nat" where
  "digit_val c = of_char c - 48"

fun digits_ok :: "string \<Rightarrow> bool" where
  "digits_ok [] = False"
| "digits_ok [c] = is_digit c"
| "digits_ok (c # d # cs) =
     (is_digit c \<and> (if d = CHR ''_'' then digits_ok cs else digits_ok (d # cs)))"

definition digits_value :: "string \<Rightarrow> nat" where
  "digits_value ds = foldl (\<lambda>acc c. 10 * acc + digit_val c) 0 (filter is_digit ds)"

definition py_int :: "nat \<Rightarrow> string \<Rightarrow> int option" where
  "py_int lim s =
     (let t = int_strip s;
          neg = (t \<noteq> [] \<and> hd t = CHR ''-'');
          ds = (if t \<noteq> [] \<and> (hd t = CHR ''+'' \<or> hd t = CHR ''-'') then tl t else t)
      in if \<not> digits_ok ds then None
         else if 0 < lim \<and> lim < length (filter is_digit ds) then None
         else Some (if neg then - int (digits_value ds) else int (digits_value ds)))"

text \<open>\<open>str(n)\<close> of an \<open>int\<close>, as an f-string formats it.\<close>

fun str_nat :: "nat \<Rightarrow> string" where
  "str_nat n =
     (if n < 10 then [''0123456789'' ! n]
      else str_nat (n div 10) @ [''0123456789'' ! (n mod 10)])"

declare str_nat.simps [simp del]

definition str_int :: "int \<Rightarrow> string" where
  "str_int i = (if i < 0 then CHR ''-'' # str_nat (nat (- i)) else str_nat (nat i))"

section \<open>The regular expression of the search parser\<close>

text \<open>
  \<open>re.match(r"(.+?)\s+([^\s]+)\s+([^\s]+)\s+([^\s]+)", line)\<close>. The pattern is a
  sequence of seven items, each a character class repeated one or more times, lazily
  (\<open>+?\<close>) or greedily (\<open>+\<close>). \<open>re.match\<close> anchors at the start of the line only and
  backtracks: a lazy item tries the shortest run first, a greedy item the longest, and
  the first choice for which the rest of the pattern matches wins.
\<close>

datatype cclass = Dot | Space | NonSpace

datatype quant = Lazy | Greedy

fun in_class :: "cclass \<Rightarrow> char \<Rightarrow> bool" where
  "in_class Dot c = (c \<noteq> CHR 0x0A)"
| "in_class Space c = is_space c"
| "in_class NonSpace c = (\<not> is_space c)"

text \<open>The run lengths an item may take at the head of \<open>s\<close>, in the order they are tried.\<close>

definition candidates :: "cclass \<times> quant \<Rightarrow> string \<Rightarrow> nat list" where
  "candidates it s =
     (let n = length (takeWhile (in_class (fst it)) s)
      in case snd it of Lazy \<Rightarrow> [1 ..< Suc n] | Greedy \<Rightarrow> rev [1 ..< Suc n])"

fun first_some :: "('a \<Rightarrow> 'b option) \<Rightarrow> 'a list \<Rightarrow> 'b option" where
  "first_some f [] = None"
| "first_some f (x # xs) = (case f x of Some y \<Rightarrow> Some y | None \<Rightarrow> first_some f xs)"

text \<open>The text each item matched, when the whole sequence matches at the head of \<open>s\<close>.\<close>

primrec match_items :: "(cclass \<times> quant) list \<Rightarrow> string \<Rightarrow> string list option" where
  "match_items [] = (\<lambda>s. Some [])"
| "match_items (it # its) =
     (\<lambda>s. first_some
        (\<lambda>k. map_option (\<lambda>spans. take k s # spans) (match_items its (drop k s)))
        (candidates it s))"

definition pattern :: "(cclass \<times> quant) list" where
  "pattern = [(Dot, Lazy), (Space, Greedy), (NonSpace, Greedy), (Space, Greedy),
              (NonSpace, Greedy), (Space, Greedy), (NonSpace, Greedy)]"

text \<open>The four groups of the match object: items 0, 2, 4 and 6 of the pattern.\<close>

definition re_match :: "string \<Rightarrow> (string \<times> string \<times> string \<times> string) option" where
  "re_match line =
     (case match_items pattern line of
        Some [g1, w1, g2, w2, g3, w3, g4] \<Rightarrow> Some (g1, g2, g3, g4)
      | _ \<Rightarrow> None)"

section \<open>The command runner\<close>

text \<open>
  What \<open>subprocess.run(command, capture_output=True, text=True, shell=True,
  check=False)\<close> can do: return a completed process with both streams as text and an
  exit status, or raise. The operating system is a parameter \<open>os\<close> of the model, a
  function from the command line to what happens. A command line that holds a NUL
  character never reaches the operating system: Python raises \<open>ValueError\<close>.
\<close>

datatype exn = CalledProcessError string | FileNotFoundError | ValueError | IndexError
  | OtherException string

datatype proc = CompletedProcess string string int | Raises exn

type_synonym outcome = "string \<times> string"

definition subprocess_run :: "(string \<Rightarrow> proc) \<Rightarrow> string \<Rightarrow> proc" where
  "subprocess_run os command =
     (if CHR 0x00 \<in> set command then Raises ValueError else os command)"

text \<open>
  \<open>run_command\<close> of app.py. An exception that neither \<open>except\<close> clause names
  propagates to the caller (\<open>Inl\<close>).
\<close>

definition run_command :: "(string \<Rightarrow> proc) \<Rightarrow> string \<Rightarrow> exn + outcome" where
  "run_command os command =
     (case subprocess_run os command of
        CompletedProcess out err returncode \<Rightarrow> Inr (out, err)
      | Raises (CalledProcessError e) \<Rightarrow> Inr ([], ''Error: '' @ e)
      | Raises FileNotFoundError \<Rightarrow>
          Inr ([], ''Command not found error check if winget is installed in your system.'')
      | Raises e \<Rightarrow> Inl e)"

text \<open>\<open>run_command\<close> of ap2.py: the same, with logging (not modelled) and another text.\<close>

definition run_command_ap2 :: "(string \<Rightarrow> proc) \<Rightarrow> string \<Rightarrow> exn + outcome" where
  "run_command_ap2 os command =
     (case subprocess_run os command of
        CompletedProcess out err returncode \<Rightarrow> Inr (out, err)
      | Raises (CalledProcessError e) \<Rightarrow> Inr ([], ''Error: '' @ e)
      | Raises FileNotFoundError \<Rightarrow>
          Inr ([], ''Command not found error. Check if winget is installed in your system.'')
      | Raises e \<Rightarrow> Inl e)"

section \<open>What a turn does\<close>

text \<open>
  The effects of handling one response, in order: a command handed to \<open>run_command\<close>
  together with what \<open>run_command\<close> gave back, the Streamlit calls that show something,
  and an exception that nothing catches, which ends the script run.
\<close>

datatype event =
    Shell string "exn + outcome"
  | StError string
  | StSuccess string
  | StWrite string
  | StRadio string "string list"
  | StButton string
  | Uncaught exn

section \<open>The search parser\<close>

text \<open>The \<open>for\<close> loop of \<open>parse_winget_search\<close> over \<open>lines[startIndex:]\<close>.\<close>

fun parse_lines :: "string list \<Rightarrow> (string \<times> string) list" where
  "parse_lines [] = []"
| "parse_lines (line # rest) =
     (case re_match line of
        Some (g1, g2, g3, g4) \<Rightarrow> (strip g1, strip g2) # parse_lines rest
      | None \<Rightarrow> parse_lines rest)"

text \<open>
  \<open>parse_winget_search\<close>, the same in app.py and ap2.py but for logging. It returns
  what it showed and its result; the bare \<open>return\<close> gives Python's \<open>None\<close>.
\<close>

definition parse_winget_search :: "string \<Rightarrow> event list \<times> (string \<times> string) list option" where
  "parse_winget_search output =
     (let lines = splitlines output; startIndex = 3
      in if length lines \<le> startIndex
         then ([StError ''No applications found with the given name''], None)
         else ([], Some (parse_lines (drop startIndex lines))))"

section \<open>The dispatchers\<close>

definition WINGET_SEARCH :: string where
  "WINGET_SEARCH = ''WINGET_SEARCH:''"

definition WINGET_INSTALL :: string where
  "WINGET_INSTALL = ''WINGET_INSTALL:''"

definition POWERSHELL_SLEEP :: string where
  "POWERSHELL_SLEEP = ''POWERSHELL_SLEEP:''"

text \<open>
  What the user and the interpreter contribute to a turn: the operating system, the
  index of the radio option chosen (Streamlit preselects the first), the values the
  two \<open>st.button\<close> calls return, and the interpreter's digit limit for \<open>int\<close>.
\<close>

record env =
  os :: "string \<Rightarrow> proc"
  radio_choice :: nat
  install_pressed :: bool
  confirm_pressed :: bool
  max_str_digits :: nat

definition st_radio :: "env \<Rightarrow> string list \<Rightarrow> string" where
  "st_radio env options =
     options ! (if radio_choice env < length options then radio_choice env else 0)"

text \<open>
  The payloads: each branch computes \<open>response_text.replace(marker, "").strip()\<close>
  with its own marker.
\<close>

definition payload :: "string \<Rightarrow> string \<Rightarrow> string" where
  "payload marker response_text = strip (replace marker [] response_text)"

definition search_term :: "string \<Rightarrow> string" where
  "search_term response_text = payload WINGET_SEARCH response_text"

definition package_id :: "string \<Rightarrow> string" where
  "package_id response_text = payload WINGET_INSTALL response_text"

definition minutes :: "string \<Rightarrow> string" where
  "minutes response_text = payload POWERSHELL_SLEEP response_text"

definition search_command :: "string \<Rightarrow> string" where
  \<open>search_command term = ''winget search "'' @ term @ ''"''\<close>

definition install_command :: "string \<Rightarrow> string" where
  \<open>install_command ident = ''winget install --id "'' @ ident @ ''" -e''\<close>

definition sleep_command :: "int \<Rightarrow> string" where
  \<open>sleep_command minutes_int =
     ''powershell -Command "powercfg /change /standby-timeout-ac '' @ str_int minutes_int @ ''"''\<close>

text \<open>
  The body of \<open>if results:\<close> in the search branch: the radio, the lookup of the chosen
  name's identifier (the first pair with that name) and the Install button.
\<close>

definition select_and_install ::
  "((string \<Rightarrow> proc) \<Rightarrow> string \<Rightarrow> exn + outcome) \<Rightarrow> env \<Rightarrow> (string \<times> string) list \<Rightarrow> event list" where
  "select_and_install run env results =
     (let names = map fst results;
          selected_app = st_radio env names
      in [StWrite ''Here are the search results:'',
          StRadio ''Select an application to install:'' names] @
         (case filter (\<lambda>(name, ident). name = selected_app) results of
            [] \<Rightarrow> [Uncaught IndexError]
          | (name, selected_app_id) # _ \<Rightarrow>
              StButton ''Install'' #
              (if install_pressed env then
                 (case run (os env) (install_command selected_app_id) of
                    Inl e \<Rightarrow> [Shell (install_command selected_app_id) (Inl e), Uncaught e]
                  | Inr (install_stdout, install_stderr) \<Rightarrow>
                      Shell (install_command selected_app_id)
                        (Inr (install_stdout, install_stderr)) #
                      (if install_stderr \<noteq> [] then [StError install_stderr]
                       else [StSuccess (''Installation output:'' @ [CHR 0x0A] @ install_stdout)]))
               else [])))"

text \<open>
  The branch \<open>if "WINGET_SEARCH:" in response_text\<close>, the same text in both files;
  \<open>run\<close> is the file's own \<open>run_command\<close>.
\<close>

definition winget_search_branch ::
  "((string \<Rightarrow> proc) \<Rightarrow> string \<Rightarrow> exn + outcome) \<Rightarrow> env \<Rightarrow> string \<Rightarrow> event list" where
  "winget_search_branch run env response_text =
     (let command = search_command (search_term response_text)
      in case run (os env) command of
           Inl e \<Rightarrow> [Shell command (Inl e), Uncaught e]
         | Inr (stdout, stderr) \<Rightarrow>
             Shell command (Inr (stdout, stderr)) #
             (if stderr \<noteq> [] then [StError stderr]
              else (case parse_winget_search stdout of
                      (shown, Some (r # rs)) \<Rightarrow> shown @ select_and_install run env (r # rs)
                    | (shown, _) \<Rightarrow> shown)))"

text \<open>The branch \<open>elif "WINGET_INSTALL:" in response_text\<close> of app.py.\<close>

definition winget_install_branch :: "env \<Rightarrow> string \<Rightarrow> event list" where
  "winget_install_branch env response_text =
     (let command = install_command (package_id response_text)
      in case run_command (os env) command of
           Inl e \<Rightarrow> [Shell command (Inl e), Uncaught e]
         | Inr (stdout, stderr) \<Rightarrow>
             Shell command (Inr (stdout, stderr)) #
             (if stderr \<noteq> [] then [StError stderr]
              else [StSuccess (''Installation output:'' @ [CHR 0x0A] @ stdout)]))"

text \<open>
  The branch \<open>elif "POWERSHELL_SLEEP:" in response_text\<close> of app.py. The \<open>try\<close> spans
  the conversion and the command, so a \<open>ValueError\<close> from either ends in the same
  message. Formatting \<open>minutes_int\<close> cannot exceed the digit limit: its text passed it.
\<close>

definition invalid_time :: string where
  "invalid_time = ''Invalid time provided for sleep settings. Please provide a number.''"

definition powershell_sleep_branch :: "env \<Rightarrow> string \<Rightarrow> event list" where
  "powershell_sleep_branch env response_text =
     (case py_int (max_str_digits env) (minutes response_text) of
        None \<Rightarrow> [StError invalid_time]
      | Some minutes_int \<Rightarrow>
          (let command = sleep_command minutes_int
           in case run_command (os env) command of
                Inl ValueError \<Rightarrow> [Shell command (Inl ValueError), StError invalid_time]
              | Inl e \<Rightarrow> [Shell command (Inl e), Uncaught e]
              | Inr (stdout, stderr) \<Rightarrow>
                  Shell command (Inr (stdout, stderr)) #
                  (if stderr \<noteq> [] then [StError stderr]
                   else [StSuccess (''Sleep timeout set to '' @ str_int minutes_int @ '' minutes.'')])))"

text \<open>The \<open>else\<close> branch of app.py.\<close>

definition could_not_process :: string where
  "could_not_process =
     ''I couldn't process that request. I can help with Winget installations and setting the sleep timer.''"

definition else_branch :: "env \<Rightarrow> string \<Rightarrow> event list" where
  "else_branch env response_text = [StWrite could_not_process]"

text \<open>The \<open>else\<close> branch of ap2.py: the button, and the command only when it returned True.\<close>

definition else_branch_ap2 :: "env \<Rightarrow> string \<Rightarrow> event list" where
  "else_branch_ap2 env response_text =
     StButton (''Confirm execution: '' @ response_text) #
     (if confirm_pressed env then
        (case run_command_ap2 (os env) response_text of
           Inl e \<Rightarrow> [Shell response_text (Inl e), Uncaught e]
         | Inr (stdout, stderr) \<Rightarrow>
             Shell response_text (Inr (stdout, stderr)) #
             (if stderr \<noteq> [] then [StError stderr]
              else [StSuccess (''Command executed:'' @ [CHR 0x0A] @ stdout)]))
      else [])"

text \<open>The chain under "Process Gemini's response and execute commands" of app.py.\<close>

definition app_process :: "env \<Rightarrow> string \<Rightarrow> event list" where
  "app_process env response_text =
     (if py_in WINGET_SEARCH response_text then winget_search_branch run_command env response_text
      else if py_in WINGET_INSTALL response_text then winget_install_branch env response_text
      else if py_in POWERSHELL_SLEEP response_text then powershell_sleep_branch env response_text
      else else_branch env response_text)"

text \<open>The same place of ap2.py.\<close>

definition ap2_process :: "env \<Rightarrow> string \<Rightarrow> event list" where
  "ap2_process env response_text =
     (if py_in WINGET_SEARCH response_text
      then winget_search_branch run_command_ap2 env response_text
      else else_branch_ap2 env response_text)"

text \<open>The command lines of a turn, in the order they were handed over.\<close>

fun shell_commands :: "event list \<Rightarrow> string list" where
  "shell_commands [] = []"
| "shell_commands (Shell command res # evs) = command # shell_commands evs"
| "shell_commands (ev # evs) = shell_commands evs"

section \<open>Notions of the specification\<close>

text \<open>
  The position of the first occurrence of \<open>old\<close> in \<open>s\<close> (Python's \<open>s.find(old)\<close>,
  \<open>None\<close> for -1). The code never computes it; the specification speaks of it.
\<close>

fun spec_find :: "string \<Rightarrow> string \<Rightarrow> nat option" where
  "spec_find old [] = (if old = [] then Some 0 else None)"
| "spec_find old (c # cs) =
     (if prefix old (c # cs) then Some 0 else map_option Suc (spec_find old cs))"

text \<open>The specification's payload: the text after the first occurrence of the marker, trimmed.\<close>

definition spec_payload :: "string \<Rightarrow> string \<Rightarrow> string option" where
  "spec_payload marker s =
     map_option (\<lambda>i. strip (drop (i + length marker) s)) (spec_find marker s)"

text \<open>A whitespace-delimited token, and the whitespace between two tokens.\<close>

definition is_token :: "string \<Rightarrow> bool" where
  "is_token t = (t \<noteq> [] \<and> list_all (\<lambda>c. \<not> is_space c) t)"

definition is_gap :: "string \<Rightarrow> bool" where
  "is_gap w = (w \<noteq> [] \<and> list_all is_space w)"

text \<open>
  A turn honours the error stream: wherever a command came back with a non-empty
  stderr, the turn goes on with showing exactly that text as an error and ends there,
  so that nothing is reported as a success after it.
\<close>

fun stderr_respected :: "event list \<Rightarrow> bool" where
  "stderr_respected [] = True"
| "stderr_respected (Shell command (Inr (out, err)) # evs) =
     (if err \<noteq> [] then evs = [StError err] else stderr_respected evs)"
| "stderr_respected (ev # evs) = stderr_respected evs"

section \<open>Sample environments\<close>

definition os_silent :: "string \<Rightarrow> proc" where
  "os_silent command = CompletedProcess [] [] 0"

definition os_failing :: "string \<Rightarrow> proc" where
  "os_failing command = CompletedProcess ''partial output'' ''access denied'' 1"

definition os_no_shell :: "string \<Rightarrow> proc" where
  "os_no_shell command = Raises FileNotFoundError"

definition env_idle :: env where
  "env_idle = \<lparr>os = os_silent, radio_choice = 0, install_pressed = False,
                 confirm_pressed = False, max_str_digits = 4300\<rparr>"

definition env_failing :: env where
  "env_failing = \<lparr>os = os_failing, radio_choice = 0, install_pressed = True,
                    confirm_pressed = True, max_str_digits = 4300\<rparr>"

definition env_no_shell :: env where
  "env_no_shell = \<lparr>os = os_no_shell, radio_choice = 0, install_pressed = True,
                     confirm_pressed = True, max_str_digits = 4300\<rparr>"

section \<open>Properties\<close>

lemmas marker_defs = WINGET_SEARCH_def WINGET_INSTALL_def POWERSHELL_SLEEP_def

subsection \<open>Payloads\<close>

lemma replace_absent: "old \<noteq> [] \<Longrightarrow> \<not> py_in old s \<Longrightarrow> replace old new s = s"
proof (induction s)
  case Nil
  then show ?case by (simp add: replace.simps)
next
  case (Cons c cs)
  then show ?case by (subst replace.simps) simp
qed

lemma replace_at_first:
  "old \<noteq> [] \<Longrightarrow> spec_find old (pre @ old @ post) = Some (length pre) \<Longrightarrow>
   replace old new (pre @ old @ post) = pre @ new @ replace old new post"
proof (induction pre)
  case Nil
  then show ?case by (subst replace.simps) simp
next
  case (Cons p ps)
  from Cons.prems(2) have np: "\<not> prefix old (p # ps @ old @ post)"
    by (auto split: if_splits)
  with Cons.prems(2) have "spec_find old (ps @ old @ post) = Some (length ps)"
    by (auto split: if_splits)
  with Cons.IH Cons.prems(1)
  have "replace old new (ps @ old @ post) = ps @ new @ replace old new post" by simp
  with np Cons.prems(1) show ?case by (subst replace.simps) simp
qed

lemma strip_leading_space: "list_all is_space ws \<Longrightarrow> strip (ws @ s) = strip s"
  by (induction ws) (simp_all add: strip_def lstrip_def)

text \<open>
  Claim C1, as the code has it. Let a response be \<open>pre\<close>, then a directive marker at
  its first occurrence, then \<open>post\<close>. The payload is \<open>pre\<close> followed by \<open>post\<close> with the
  further occurrences of the marker removed, trimmed of surrounding whitespace: the
  text before the marker stays in the payload. When the marker does not occur again,
  the payload is \<open>pre\<close> followed by \<open>post\<close>, trimmed; it is the text after the marker,
  trimmed, when moreover \<open>pre\<close> is whitespace only.
\<close>

theorem payload_keeps_text_before_marker:
  assumes "m \<in> {WINGET_SEARCH, WINGET_INSTALL, POWERSHELL_SLEEP}"
    and "spec_find m (pre @ m @ post) = Some (length pre)"
  shows "payload m (pre @ m @ post) = strip (pre @ replace m [] post)
       \<and> (\<not> py_in m post \<longrightarrow> payload m (pre @ m @ post) = strip (pre @ post))
       \<and> (\<not> py_in m post \<and> list_all is_space pre \<longrightarrow>
            payload m (pre @ m @ post) = strip post
          \<and> spec_payload m (pre @ m @ post) = Some (payload m (pre @ m @ post)))"
proof -
  from assms(1) have ne: "m \<noteq> []" by (auto simp add: marker_defs)
  have eq: "payload m (pre @ m @ post) = strip (pre @ replace m [] post)"
    using replace_at_first [OF ne assms(2), of "[]"] by (simp add: payload_def)
  moreover have "\<not> py_in m post \<Longrightarrow> replace m [] post = post"
    using ne by (rule replace_absent)
  ultimately show ?thesis
    using assms(2) by (simp add: strip_leading_space spec_payload_def)
qed

theorem payload_keeps_text_before_marker_witness:
  "WINGET_SEARCH \<in> {WINGET_SEARCH, WINGET_INSTALL, POWERSHELL_SLEEP}
   \<and> spec_find WINGET_SEARCH (''Sure! '' @ WINGET_SEARCH @ '' vscode'') = Some (length ''Sure! '')
   \<and> \<not> py_in WINGET_SEARCH '' vscode''
   \<and> payload WINGET_SEARCH (''Sure! '' @ WINGET_SEARCH @ '' vscode'') = ''Sure!  vscode''
   \<and> list_all is_space ''  ''
   \<and> spec_find WINGET_SEARCH (''  '' @ WINGET_SEARCH @ '' vscode'') = Some (length ''  '')
   \<and> payload WINGET_SEARCH (''  '' @ WINGET_SEARCH @ '' vscode'') = ''vscode''"
proof -
  have m: "WINGET_SEARCH \<in> {WINGET_SEARCH, WINGET_INSTALL, POWERSHELL_SLEEP}" by simp
  have f1: "spec_find WINGET_SEARCH (''Sure! '' @ WINGET_SEARCH @ '' vscode'') = Some (length ''Sure! '')"
    by (simp add: marker_defs)
  have f2: "spec_find WINGET_SEARCH (''  '' @ WINGET_SEARCH @ '' vscode'') = Some (length ''  '')"
    by (simp add: marker_defs)
  have n: "\<not> py_in WINGET_SEARCH '' vscode''" by (simp add: marker_defs)
  have sp: "list_all is_space ''  ''" by (simp add: is_space_def)
  have s1: "strip (''Sure! '' @ '' vscode'') = ''Sure!  vscode''"
    by (simp add: strip_def lstrip_def rstrip_def is_space_def)
  have s2: "strip '' vscode'' = ''vscode''"
    by (simp add: strip_def lstrip_def rstrip_def is_space_def)
  from payload_keeps_text_before_marker [OF m f1] n
  have "payload WINGET_SEARCH (''Sure! '' @ WINGET_SEARCH @ '' vscode'') =
        strip (''Sure! '' @ '' vscode'')"
    by blast
  with s1 have r1: "payload WINGET_SEARCH (''Sure! '' @ WINGET_SEARCH @ '' vscode'') = ''Sure!  vscode''"
    by (simp only:)
  from payload_keeps_text_before_marker [OF m f2] n sp
  have "payload WINGET_SEARCH (''  '' @ WINGET_SEARCH @ '' vscode'') = strip '' vscode''"
    by blast
  with s2 have r2: "payload WINGET_SEARCH (''  '' @ WINGET_SEARCH @ '' vscode'') = ''vscode''"
    by (simp only:)
  from m f1 n r1 sp f2 r2 show ?thesis by blast
qed

text \<open>
  Claim C1 as stated fails: in the response below the payload of the search branch
  still holds the text before the marker, while the text after the marker, trimmed,
  is \<open>vscode\<close>.
\<close>

theorem payload_is_not_text_after_marker:
  "py_in WINGET_SEARCH ''Sure! WINGET_SEARCH: vscode''
   \<and> search_term ''Sure! WINGET_SEARCH: vscode'' = ''Sure!  vscode''
   \<and> spec_payload WINGET_SEARCH ''Sure! WINGET_SEARCH: vscode'' = Some ''vscode''"
  by (simp add: search_term_def payload_def spec_payload_def marker_defs replace.simps
      strip_def lstrip_def rstrip_def is_space_def)

subsection \<open>Responses without a marker\<close>

text \<open>
  Claim C2. For a response that holds none of the three markers, app.py shows its
  message and hands no command over; ap2.py shows the confirmation button first and
  hands over the response text, and nothing else, only when the button returned True.
\<close>

theorem no_marker_runs_nothing_unconfirmed:
  assumes "\<not> py_in WINGET_SEARCH r" and "\<not> py_in WINGET_INSTALL r"
    and "\<not> py_in POWERSHELL_SLEEP r"
  shows "app_process env r = [StWrite could_not_process]
       \<and> shell_commands (app_process env r) = []
       \<and> ap2_process env r =
           StButton (''Confirm execution: '' @ r) #
             (if confirm_pressed env then tl (ap2_process env r) else [])
       \<and> shell_commands (ap2_process env r) = (if confirm_pressed env then [r] else [])"
  using assms
  by (simp add: app_process_def ap2_process_def else_branch_def else_branch_ap2_def
      split: sum.splits prod.splits)

theorem no_marker_runs_nothing_unconfirmed_witness:
  "\<not> py_in WINGET_SEARCH ''I don't understand''
   \<and> \<not> py_in WINGET_INSTALL ''I don't understand''
   \<and> \<not> py_in POWERSHELL_SLEEP ''I don't understand''
   \<and> app_process env_idle ''I don't understand'' = [StWrite could_not_process]
   \<and> shell_commands (ap2_process env_idle ''I don't understand'') = []
   \<and> shell_commands (ap2_process env_failing ''I don't understand'') = [''I don't understand'']"
proof -
  have h: "\<not> py_in WINGET_SEARCH ''I don't understand''"
    "\<not> py_in WINGET_INSTALL ''I don't understand''"
    "\<not> py_in POWERSHELL_SLEEP ''I don't understand''"
    by (simp_all add: marker_defs)
  show ?thesis
    using h no_marker_runs_nothing_unconfirmed [OF h, of env_idle]
      no_marker_runs_nothing_unconfirmed [OF h, of env_failing]
    by (simp add: env_idle_def env_failing_def)
qed

lemmas eval_defs = app_process_def ap2_process_def winget_search_branch_def
  winget_install_branch_def powershell_sleep_branch_def else_branch_def else_branch_ap2_def
  select_and_install_def search_term_def package_id_def minutes_def payload_def
  search_command_def install_command_def sleep_command_def run_command_def
  run_command_ap2_def subprocess_run_def parse_winget_search_def splitlines_def
  strip_def lstrip_def rstrip_def is_space_def py_int_def int_strip_def is_int_space_def
  is_digit_def digits_value_def
  digit_val_def str_int_def str_nat.simps replace.simps marker_defs

subsection \<open>The sleep branch\<close>

lemma decimal_digit:
  assumes "k < 10"
  shows "is_digit (''0123456789'' ! k)" and "digit_val (''0123456789'' ! k) = k"
    and "\<not> is_int_space (''0123456789'' ! k)"
proof -
  from assms have "k \<in> {0, 1, 2, 3, 4, 5, 6, 7, 8, 9}" by auto
  then show "is_digit (''0123456789'' ! k)" and "digit_val (''0123456789'' ! k) = k"
    and "\<not> is_int_space (''0123456789'' ! k)"
    by (auto simp add: is_digit_def digit_val_def is_int_space_def)
qed

lemma is_digit_plain:
  "is_digit c \<Longrightarrow> c \<noteq> CHR ''_'' \<and> c \<noteq> CHR ''+'' \<and> c \<noteq> CHR ''-''"
  by (auto simp add: is_digit_def)

lemma str_nat_digits: "str_nat n \<noteq> [] \<and> list_all is_digit (str_nat n)"
proof (induction n rule: str_nat.induct)
  case (1 n)
  show ?case
  proof (cases "n < 10")
    case True
    then show ?thesis by (simp add: str_nat.simps [of n] decimal_digit)
  next
    case False
    with 1 have "list_all is_digit (str_nat (n div 10))" by simp
    with False show ?thesis by (simp add: str_nat.simps [of n] decimal_digit)
  qed
qed

lemma str_nat_no_space: "list_all (\<lambda>c. \<not> is_int_space c) (str_nat n)"
proof (induction n rule: str_nat.induct)
  case (1 n)
  show ?case
  proof (cases "n < 10")
    case True
    then show ?thesis by (simp add: str_nat.simps [of n] decimal_digit)
  next
    case False
    with 1 have "list_all (\<lambda>c. \<not> is_int_space c) (str_nat (n div 10))" by simp
    with False show ?thesis by (simp add: str_nat.simps [of n] decimal_digit)
  qed
qed

lemma digits_ok_all_digits: "ds \<noteq> [] \<Longrightarrow> list_all is_digit ds \<Longrightarrow> digits_ok ds"
proof (induction ds rule: digits_ok.induct)
  case 1
  then show ?case by simp
next
  case (2 c)
  then show ?case by simp
next
  case (3 c d cs)
  from "3.prems" have d: "is_digit d" and c: "is_digit c" and r: "list_all is_digit (d # cs)"
    by simp_all
  from d have "d \<noteq> CHR ''_''" using is_digit_plain by blast
  with 3 c r show ?case by simp
qed

lemma digits_value_snoc:
  "is_digit c \<Longrightarrow> list_all is_digit ds \<Longrightarrow>
   digits_value (ds @ [c]) = 10 * digits_value ds + digit_val c"
  by (simp add: digits_value_def)

lemma digits_value_str_nat: "digits_value (str_nat n) = n"
proof (induction n rule: str_nat.induct)
  case (1 n)
  show ?case
  proof (cases "n < 10")
    case True
    then show ?thesis
      by (simp add: str_nat.simps [of n] decimal_digit digits_value_def)
  next
    case False
    with 1 have ih: "digits_value (str_nat (n div 10)) = n div 10" by simp
    have m: "n mod 10 < 10" by simp
    from False have "str_nat n = str_nat (n div 10) @ [''0123456789'' ! (n mod 10)]"
      by (simp add: str_nat.simps [of n])
    then have "digits_value (str_nat n) =
        10 * digits_value (str_nat (n div 10)) + digit_val (''0123456789'' ! (n mod 10))"
      using digits_value_snoc [OF decimal_digit(1) [OF m]] str_nat_digits by simp
    with ih decimal_digit(2) [OF m] show ?thesis by simp
  qed
qed

lemma int_strip_id:
  assumes "list_all (\<lambda>c. \<not> is_int_space c) s"
  shows "int_strip s = s"
proof -
  have d: "dropWhile is_int_space xs = xs" if "list_all (\<lambda>c. \<not> is_int_space c) xs" for xs
    using that by (cases xs) simp_all
  from assms have "list_all (\<lambda>c. \<not> is_int_space c) (rev s)" by (simp add: list_all_iff)
  with assms d show ?thesis by (simp add: int_strip_def)
qed

lemma py_int_str_int: "py_int 0 (str_int n) = Some n"
proof (cases "n < 0")
  case True
  have "\<not> is_int_space (CHR ''-'')" by (simp add: is_int_space_def)
  with True have s: "int_strip (str_int n) = CHR ''-'' # str_nat (nat (- n))"
    using str_nat_no_space [of "nat (- n)"] by (simp add: str_int_def int_strip_id)
  have ok: "digits_ok (str_nat (nat (- n)))"
    using str_nat_digits digits_ok_all_digits by blast
  from True s ok show ?thesis
    by (simp add: py_int_def digits_value_str_nat)
next
  case False
  then have s: "int_strip (str_int n) = str_nat (nat n)"
    using str_nat_no_space [of "nat n"] by (simp add: str_int_def int_strip_id)
  have ne: "str_nat (nat n) \<noteq> []" and dg: "list_all is_digit (str_nat (nat n))"
    using str_nat_digits by blast+
  then have "is_digit (hd (str_nat (nat n)))" by (cases "str_nat (nat n)") simp_all
  then have h: "hd (str_nat (nat n)) \<noteq> CHR ''+''" "hd (str_nat (nat n)) \<noteq> CHR ''-''"
    using is_digit_plain by blast+
  have ok: "digits_ok (str_nat (nat n))"
    using ne dg by (rule digits_ok_all_digits)
  from False s h ok show ?thesis
    by (simp add: py_int_def digits_value_str_nat)
qed

text \<open>
  Claim C6. A response handled by the sleep branch of app.py (it holds the sleep marker
  and neither of the two markers tested before it; ap2.py has no such branch): when
  \<open>int\<close> raises on the payload, the turn consists of the message "Invalid time provided
  for sleep settings. Please provide a number." alone, so no command is handed over
  and nothing is left uncaught; when \<open>int\<close> gives \<open>n\<close>, the one command handed over is
  \<open>powershell -Command "powercfg /change /standby-timeout-ac n"\<close> with \<open>n\<close> written in
  decimal, which \<open>int\<close> reads back as \<open>n\<close>.
\<close>

theorem sleep_payload_validated:
  assumes "\<not> py_in WINGET_SEARCH r" and "\<not> py_in WINGET_INSTALL r"
    and "py_in POWERSHELL_SLEEP r"
  shows \<open>(py_int (max_str_digits env) (minutes r) = None \<longrightarrow>
            app_process env r =
              [StError ''Invalid time provided for sleep settings. Please provide a number.''])
       \<and> (\<forall>n. py_int (max_str_digits env) (minutes r) = Some n \<longrightarrow>
            shell_commands (app_process env r) =
              [''powershell -Command "powercfg /change /standby-timeout-ac '' @ str_int n @ ''"'']
            \<and> py_int 0 (str_int n) = Some n)\<close>
  using assms
  by (auto simp add: app_process_def powershell_sleep_branch_def Let_def invalid_time_def
      sleep_command_def py_int_str_int split: sum.splits prod.splits exn.splits)

lemma sleep_abc: "py_int 4300 (minutes ''POWERSHELL_SLEEP: abc'') = None"
  by (simp add: eval_defs)

lemma sleep_30: "py_int 4300 (minutes ''POWERSHELL_SLEEP: 30'') = Some 30"
  by (simp add: eval_defs)

lemma str_int_30: "str_int 30 = ''30''"
  by (simp add: str_int_def str_nat.simps)

theorem sleep_payload_validated_witness:
  \<open>\<not> py_in WINGET_SEARCH ''POWERSHELL_SLEEP: abc''
   \<and> \<not> py_in WINGET_INSTALL ''POWERSHELL_SLEEP: abc''
   \<and> py_in POWERSHELL_SLEEP ''POWERSHELL_SLEEP: abc''
   \<and> py_int (max_str_digits env_idle) (minutes ''POWERSHELL_SLEEP: abc'') = None
   \<and> app_process env_idle ''POWERSHELL_SLEEP: abc'' =
       [StError ''Invalid time provided for sleep settings. Please provide a number.'']
   \<and> \<not> py_in WINGET_SEARCH ''POWERSHELL_SLEEP: 30''
   \<and> \<not> py_in WINGET_INSTALL ''POWERSHELL_SLEEP: 30''
   \<and> py_in POWERSHELL_SLEEP ''POWERSHELL_SLEEP: 30''
   \<and> py_int (max_str_digits env_idle) (minutes ''POWERSHELL_SLEEP: 30'') = Some 30
   \<and> shell_commands (app_process env_idle ''POWERSHELL_SLEEP: 30'') =
       [''powershell -Command "powercfg /change /standby-timeout-ac 30"'']\<close>
proof -
  have a: "\<not> py_in WINGET_SEARCH ''POWERSHELL_SLEEP: abc''"
    "\<not> py_in WINGET_INSTALL ''POWERSHELL_SLEEP: abc''"
    "py_in POWERSHELL_SLEEP ''POWERSHELL_SLEEP: abc''"
    by (simp_all add: marker_defs)
  have b: "\<not> py_in WINGET_SEARCH ''POWERSHELL_SLEEP: 30''"
    "\<not> py_in WINGET_INSTALL ''POWERSHELL_SLEEP: 30''"
    "py_in POWERSHELL_SLEEP ''POWERSHELL_SLEEP: 30''"
    by (simp_all add: marker_defs)
  have lim: "max_str_digits env_idle = 4300" by (simp add: env_idle_def)
  have pa: "py_int (max_str_digits env_idle) (minutes ''POWERSHELL_SLEEP: abc'') = None"
    by (simp only: lim sleep_abc)
  have pb: "py_int (max_str_digits env_idle) (minutes ''POWERSHELL_SLEEP: 30'') = Some 30"
    by (simp only: lim sleep_30)
  from sleep_payload_validated [OF a, of env_idle] pa
  have ra: "app_process env_idle ''POWERSHELL_SLEEP: abc'' =
      [StError ''Invalid time provided for sleep settings. Please provide a number.'']"
    by blast
  from sleep_payload_validated [OF b, of env_idle] pb
  have \<open>shell_commands (app_process env_idle ''POWERSHELL_SLEEP: 30'') =
      [''powershell -Command "powercfg /change /standby-timeout-ac '' @ str_int 30 @ ''"'']\<close>
    by blast
  then have rb: \<open>shell_commands (app_process env_idle ''POWERSHELL_SLEEP: 30'') =
      [''powershell -Command "powercfg /change /standby-timeout-ac 30"'']\<close>
    by (simp add: str_int_30)
  from a b pa pb ra rb show ?thesis by blast
qed

lemma py_in_iff_find: "py_in old s \<longleftrightarrow> spec_find old s \<noteq> None"
  by (induction s) auto

subsection \<open>Which branch is taken\<close>

text \<open>
  Claim C3, as the code has it. The branch of app.py is chosen by a fixed order of the
  keywords, whatever the positions \<open>i\<close>, \<open>j\<close>, \<open>k\<close> of the markers in the response:
  the search branch when the search marker occurs anywhere, else the install branch
  when the install marker occurs, else the sleep branch when the sleep marker occurs.
\<close>

theorem branch_by_fixed_priority:
  "(spec_find WINGET_SEARCH r = Some i \<longrightarrow>
      app_process env r = winget_search_branch run_command env r)
   \<and> (spec_find WINGET_SEARCH r = None \<and> spec_find WINGET_INSTALL r = Some j \<longrightarrow>
      app_process env r = winget_install_branch env r)
   \<and> (spec_find WINGET_SEARCH r = None \<and> spec_find WINGET_INSTALL r = None
        \<and> spec_find POWERSHELL_SLEEP r = Some k \<longrightarrow>
      app_process env r = powershell_sleep_branch env r)"
  by (simp add: app_process_def py_in_iff_find)

theorem branch_by_fixed_priority_witness:
  "spec_find WINGET_SEARCH ''POWERSHELL_SLEEP: 5 WINGET_SEARCH:'' = Some 20
   \<and> app_process env_idle ''POWERSHELL_SLEEP: 5 WINGET_SEARCH:'' =
       winget_search_branch run_command env_idle ''POWERSHELL_SLEEP: 5 WINGET_SEARCH:''"
proof -
  have f: "spec_find WINGET_SEARCH ''POWERSHELL_SLEEP: 5 WINGET_SEARCH:'' = Some 20"
    by (simp add: marker_defs)
  with branch_by_fixed_priority [of "''POWERSHELL_SLEEP: 5 WINGET_SEARCH:''" 20 env_idle]
  show ?thesis by blast
qed

text \<open>
  Claim C3 as stated fails: in the response below the sleep marker comes first, at
  position 0, and the search marker at position 20, yet app.py hands over a search
  command; the sleep branch would have shown its validation message.
\<close>

theorem earliest_marker_does_not_decide:
  "spec_find POWERSHELL_SLEEP ''POWERSHELL_SLEEP: 5 WINGET_SEARCH:'' = Some 0
   \<and> spec_find WINGET_SEARCH ''POWERSHELL_SLEEP: 5 WINGET_SEARCH:'' = Some 20
   \<and> shell_commands (app_process env_idle ''POWERSHELL_SLEEP: 5 WINGET_SEARCH:'') =
       [search_command ''POWERSHELL_SLEEP: 5'']
   \<and> powershell_sleep_branch env_idle ''POWERSHELL_SLEEP: 5 WINGET_SEARCH:'' =
       [StError invalid_time]"
  by (simp add: eval_defs env_idle_def os_silent_def)

lemma run_command_agree:
  "sys c \<noteq> Raises FileNotFoundError \<Longrightarrow> run_command_ap2 sys c = run_command sys c"
  by (simp add: run_command_def run_command_ap2_def subprocess_run_def
      split: proc.splits exn.splits)

lemma shell_commands_install_branch:
  "shell_commands (winget_install_branch env r) = [install_command (package_id r)]"
  by (simp add: winget_install_branch_def Let_def split: sum.splits prod.splits)

lemma shell_commands_else_ap2:
  "shell_commands (else_branch_ap2 env r) = (if confirm_pressed env then [r] else [])"
  by (simp add: else_branch_ap2_def split: sum.splits prod.splits)

lemma search_branch_cong:
  assumes "\<And>c. run1 (os env) c = run2 (os env) c"
  shows "winget_search_branch run1 env r = winget_search_branch run2 env r"
proof -
  have "select_and_install run1 env rs = select_and_install run2 env rs" for rs
    by (simp add: select_and_install_def assms cong: list.case_cong if_cong)
  then show ?thesis
    by (simp add: winget_search_branch_def assms cong: sum.case_cong if_cong)
qed

subsection \<open>The two files compared\<close>

text \<open>
  Claim C9, as the code has it. For a response that holds the install marker and not
  the search marker, app.py takes its install branch and hands over the install command
  for the payload, while ap2.py shows the confirmation button for the whole response
  and hands the whole response over when the button returned True. For a response
  that holds the search marker the two files produce the same turn, provided the
  platform call does not raise \<open>FileNotFoundError\<close>, for which the two
  \<open>run_command\<close> functions return different texts.
\<close>

theorem variants_diverge_on_install:
  "(py_in WINGET_INSTALL r \<and> \<not> py_in WINGET_SEARCH r \<longrightarrow>
      app_process env r = winget_install_branch env r
    \<and> shell_commands (app_process env r) = [install_command (package_id r)]
    \<and> ap2_process env r = else_branch_ap2 env r
    \<and> hd (ap2_process env r) = StButton (''Confirm execution: '' @ r)
    \<and> shell_commands (ap2_process env r) = (if confirm_pressed env then [r] else []))
   \<and> (py_in WINGET_SEARCH r \<and> (\<forall>c. os env c \<noteq> Raises FileNotFoundError) \<longrightarrow>
      ap2_process env r = app_process env r)"
proof -
  have "winget_search_branch run_command_ap2 env r = winget_search_branch run_command env r"
    if "\<forall>c. os env c \<noteq> Raises FileNotFoundError"
    using that by (intro search_branch_cong) (simp add: run_command_agree)
  then show ?thesis
    by (simp add: app_process_def ap2_process_def shell_commands_install_branch
        shell_commands_else_ap2) (simp add: else_branch_ap2_def)
qed

theorem variants_diverge_on_install_witness:
  "py_in WINGET_INSTALL ''WINGET_INSTALL: Microsoft.VisualStudioCode''
   \<and> \<not> py_in WINGET_SEARCH ''WINGET_INSTALL: Microsoft.VisualStudioCode''
   \<and> shell_commands (app_process env_failing ''WINGET_INSTALL: Microsoft.VisualStudioCode'') =
       [install_command (package_id ''WINGET_INSTALL: Microsoft.VisualStudioCode'')]
   \<and> shell_commands (ap2_process env_failing ''WINGET_INSTALL: Microsoft.VisualStudioCode'') =
       [''WINGET_INSTALL: Microsoft.VisualStudioCode'']
   \<and> py_in WINGET_SEARCH ''WINGET_SEARCH: vscode''
   \<and> (\<forall>c. os env_failing c \<noteq> Raises FileNotFoundError)
   \<and> ap2_process env_failing ''WINGET_SEARCH: vscode'' =
       app_process env_failing ''WINGET_SEARCH: vscode''"
proof -
  have a: "py_in WINGET_INSTALL ''WINGET_INSTALL: Microsoft.VisualStudioCode''"
    "\<not> py_in WINGET_SEARCH ''WINGET_INSTALL: Microsoft.VisualStudioCode''"
    "py_in WINGET_SEARCH ''WINGET_SEARCH: vscode''"
    by (simp_all add: marker_defs)
  have b: "\<forall>c. os env_failing c \<noteq> Raises FileNotFoundError"
    by (simp add: env_failing_def os_failing_def)
  have c: "confirm_pressed env_failing" by (simp add: env_failing_def)
  from variants_diverge_on_install
    [of "''WINGET_INSTALL: Microsoft.VisualStudioCode''" env_failing] a
  have r1: "shell_commands (app_process env_failing ''WINGET_INSTALL: Microsoft.VisualStudioCode'') =
       [install_command (package_id ''WINGET_INSTALL: Microsoft.VisualStudioCode'')]"
    and "shell_commands (ap2_process env_failing ''WINGET_INSTALL: Microsoft.VisualStudioCode'') =
       (if confirm_pressed env_failing then [''WINGET_INSTALL: Microsoft.VisualStudioCode''] else [])"
    by blast+
  with c have r2: "shell_commands (ap2_process env_failing ''WINGET_INSTALL: Microsoft.VisualStudioCode'') =
       [''WINGET_INSTALL: Microsoft.VisualStudioCode'']"
    by (simp only: if_True)
  from variants_diverge_on_install [of "''WINGET_SEARCH: vscode''" env_failing] a b
  have r3: "ap2_process env_failing ''WINGET_SEARCH: vscode'' =
       app_process env_failing ''WINGET_SEARCH: vscode''"
    by blast
  from a b r1 r2 r3 show ?thesis by blast
qed

text \<open>
  Claim C9 as stated fails. The first response holds the install marker, yet both
  files hand over a search command, and ap2.py does so although the confirmation button
  would have returned True. On the second response, which holds the search marker, the
  two files differ when the shell is missing.
\<close>

theorem install_marker_does_not_decide:
  "py_in WINGET_INSTALL ''WINGET_INSTALL: x WINGET_SEARCH:''
   \<and> shell_commands (app_process env_failing ''WINGET_INSTALL: x WINGET_SEARCH:'') =
       [search_command ''WINGET_INSTALL: x'']
   \<and> shell_commands (ap2_process env_failing ''WINGET_INSTALL: x WINGET_SEARCH:'') =
       [search_command ''WINGET_INSTALL: x'']
   \<and> py_in WINGET_SEARCH ''WINGET_SEARCH: vscode''
   \<and> app_process env_no_shell ''WINGET_SEARCH: vscode'' \<noteq>
       ap2_process env_no_shell ''WINGET_SEARCH: vscode''"
  by (simp add: eval_defs env_failing_def os_failing_def env_no_shell_def os_no_shell_def)

subsection \<open>The command runner\<close>

text \<open>
  Claim C7, as the code has it. \<open>run_command\<close> (of either file) returns both streams
  whenever the platform call completes, whatever the exit status \<open>rc\<close>; it returns an
  empty stdout and a message when the platform call raises \<open>FileNotFoundError\<close> or
  \<open>CalledProcessError\<close>; every other exception of the platform call propagates.
\<close>

theorem run_command_returns_or_propagates:
  "(subprocess_run sys c = CompletedProcess out err rc \<longrightarrow>
      run_command sys c = Inr (out, err) \<and> run_command_ap2 sys c = Inr (out, err))
   \<and> (subprocess_run sys c = Raises FileNotFoundError \<longrightarrow>
      run_command sys c =
        Inr ([], ''Command not found error check if winget is installed in your system.'')
      \<and> run_command_ap2 sys c =
        Inr ([], ''Command not found error. Check if winget is installed in your system.''))
   \<and> (subprocess_run sys c = Raises (CalledProcessError e) \<longrightarrow>
      run_command sys c = Inr ([], ''Error: '' @ e)
      \<and> run_command_ap2 sys c = Inr ([], ''Error: '' @ e))
   \<and> (subprocess_run sys c = Raises x \<and> x \<noteq> FileNotFoundError
        \<and> (\<forall>e. x \<noteq> CalledProcessError e) \<longrightarrow>
      run_command sys c = Inl x \<and> run_command_ap2 sys c = Inl x)"
  by (cases x) (simp_all add: run_command_def run_command_ap2_def)

theorem run_command_returns_or_propagates_witness:
  "subprocess_run os_failing (search_command ''vscode'') =
     CompletedProcess ''partial output'' ''access denied'' 1
   \<and> run_command os_failing (search_command ''vscode'') = Inr (''partial output'', ''access denied'')
   \<and> subprocess_run os_no_shell (search_command ''vscode'') = Raises FileNotFoundError
   \<and> run_command os_no_shell (search_command ''vscode'') =
       Inr ([], ''Command not found error check if winget is installed in your system.'')"
proof -
  have a: "subprocess_run os_failing (search_command ''vscode'') =
     CompletedProcess ''partial output'' ''access denied'' 1"
    by (simp add: subprocess_run_def os_failing_def search_command_def)
  have b: "subprocess_run os_no_shell (search_command ''vscode'') = Raises FileNotFoundError"
    by (simp add: subprocess_run_def os_no_shell_def search_command_def)
  from run_command_returns_or_propagates
    [of os_failing "search_command ''vscode''" "''partial output''" "''access denied''" 1] a
  have r1: "run_command os_failing (search_command ''vscode'') =
      Inr (''partial output'', ''access denied'')"
    by blast
  from run_command_returns_or_propagates [of os_no_shell "search_command ''vscode''"] b
  have r2: "run_command os_no_shell (search_command ''vscode'') =
       Inr ([], ''Command not found error check if winget is installed in your system.'')"
    by blast
  from a b r1 r2 show ?thesis by blast
qed

text \<open>
  Claim C7 as stated fails: \<open>run_command\<close> is not total over command strings. A
  command line that holds a NUL character makes the platform call raise \<open>ValueError\<close>,
  which neither \<open>except\<close> clause catches.
\<close>

theorem run_command_raises_on_nul:
  "run_command os_silent (''dir'' @ [CHR 0x00]) = Inl ValueError
   \<and> run_command_ap2 os_silent (''dir'' @ [CHR 0x00]) = Inl ValueError"
  by (simp add: run_command_def run_command_ap2_def subprocess_run_def)

subsection \<open>The search parser\<close>

lemma splitlines_from_no_linebreak:
  "\<forall>c\<in>set cur. \<not> is_linebreak c \<Longrightarrow> l \<in> set (splitlines_from cur s) \<Longrightarrow>
   c \<in> set l \<Longrightarrow> \<not> is_linebreak c"
proof (induction cur s rule: splitlines_from.induct)
  case (1 cur)
  then show ?case by (simp split: if_splits)
next
  case (2 cur x)
  then show ?case by (cases "is_linebreak x") auto
next
  case (3 cur x d cs)
  show ?case
  proof (cases "x = CHR 0x0D \<and> d = CHR 0x0A")
    case True
    with "3.prems"(2) have "l = cur \<or> l \<in> set (splitlines_from [] cs)" by simp
    then show ?thesis
    proof
      assume "l = cur"
      with "3.prems"(1,3) show ?thesis by simp
    next
      assume "l \<in> set (splitlines_from [] cs)"
      with "3.IH"(1) [OF True] "3.prems"(3) show ?thesis by simp
    qed
  next
    case nocrlf: False
    show ?thesis
    proof (cases "is_linebreak x")
      case True
      with "3.prems"(2) have "l = cur \<or> l \<in> set (splitlines_from [] (d # cs))"
        by (simp add: nocrlf)
      then show ?thesis
      proof
        assume "l = cur"
        with "3.prems"(1,3) show ?thesis by simp
      next
        assume "l \<in> set (splitlines_from [] (d # cs))"
        with "3.IH"(2) [OF nocrlf True] "3.prems"(3) show ?thesis by simp
      qed
    next
      case False
      with "3.prems"(2) have "l \<in> set (splitlines_from (cur @ [x]) (d # cs))"
        by (simp add: nocrlf)
      moreover from False "3.prems"(1) have "\<forall>c\<in>set (cur @ [x]). \<not> is_linebreak c"
        by simp
      ultimately show ?thesis
        using "3.IH"(3) [OF nocrlf False] "3.prems"(3) by simp
    qed
  qed
qed

lemma splitlines_no_LF: "l \<in> set (splitlines s) \<Longrightarrow> CHR 0x0A \<notin> set l"
proof
  assume "l \<in> set (splitlines s)" and "CHR 0x0A \<in> set l"
  then have "\<not> is_linebreak (CHR 0x0A)"
    using splitlines_from_no_linebreak [of "[]" l s "CHR 0x0A"] by (simp add: splitlines_def)
  then show False by (simp add: is_linebreak_def)
qed

lemma first_some_skip: "\<forall>x\<in>set xs. f x = None \<Longrightarrow> first_some f (xs @ ys) = first_some f ys"
  by (induction xs) simp_all

lemma takeWhile_run:
  assumes "list_all P run" and "rest = [] \<or> \<not> P (hd rest)"
  shows "takeWhile P (run @ rest) = run"
proof -
  from assms(2) have "takeWhile P rest = []" by (cases rest) auto
  with assms(1) show ?thesis by (simp add: takeWhile_append2 list_all_iff)
qed

lemma in_class_Space: "in_class Space = is_space"
  by (rule ext) simp

lemma in_class_NonSpace: "in_class NonSpace = (\<lambda>c. \<not> is_space c)"
  by (rule ext) simp

lemma match_items_Cons:
  "match_items (it # its) s =
     first_some (\<lambda>k. map_option (\<lambda>spans. take k s # spans) (match_items its (drop k s)))
       (candidates it s)"
  by simp

lemma candidates_Greedy:
  "candidates (cls, Greedy) s = rev [1 ..< Suc (length (takeWhile (in_class cls) s))]"
  by (simp only: candidates_def Let_def fst_conv snd_conv quant.case)

lemma candidates_Lazy:
  "candidates (cls, Lazy) s = [1 ..< Suc (length (takeWhile (in_class cls) s))]"
  by (simp only: candidates_def Let_def fst_conv snd_conv quant.case)

text \<open>A greedy item takes a whole run when the rest of the pattern matches behind it.\<close>

lemma greedy_step:
  assumes "run \<noteq> []" and "list_all (in_class cls) run"
    and "rest = [] \<or> \<not> in_class cls (hd rest)"
    and "match_items its rest = Some spans"
  shows "match_items ((cls, Greedy) # its) (run @ rest) = Some (run # spans)"
proof -
  from assms(1) obtain n where n: "length run = Suc n" by (cases run) auto
  have "candidates (cls, Greedy) (run @ rest) = rev [1 ..< Suc (length run)]"
    by (simp only: candidates_Greedy takeWhile_run [OF assms(2,3)])
  also have "\<dots> = length run # rev [1 ..< length run]"
    by (simp add: n)
  finally have c: "candidates (cls, Greedy) (run @ rest) = length run # rev [1 ..< length run]" .
  show ?thesis
    by (simp only: match_items_Cons c first_some.simps drop_append drop_all order_refl
        diff_self_eq_0 drop_0 append_Nil assms(4) option.map option.case take_append take_all
        take_0 append_Nil2)
qed

lemma space_item_fails:
  assumes "s = [] \<or> \<not> is_space (hd s)"
  shows "match_items ((Space, Greedy) # its) s = None"
proof -
  from assms have "takeWhile (in_class Space) s = []" by (cases s) auto
  then have "candidates (Space, Greedy) s = []" by (simp add: candidates_Greedy)
  then show ?thesis by (simp only: match_items_Cons first_some.simps)
qed

lemma is_space_LF: "is_space (CHR 0x0A)"
  by (simp add: is_space_def)

text \<open>
  The lazy first item in front of a token: every run shorter than the token leaves a
  non-space character where the whitespace item must start, so the first run that
  works is the whole token.
\<close>

lemma lazy_token_step:
  assumes "is_token t" and "rest \<noteq> []" and "is_space (hd rest)"
    and "match_items ((Space, Greedy) # its) rest = Some spans"
  shows "match_items ((Dot, Lazy) # (Space, Greedy) # its) (t @ rest) = Some (t # spans)"
proof -
  let ?n = "length (takeWhile (in_class Dot) (t @ rest))"
  let ?f = "\<lambda>k. map_option (\<lambda>spans. take k (t @ rest) # spans)
              (match_items ((Space, Greedy) # its) (drop k (t @ rest)))"
  from assms(1) have tne: "t \<noteq> []" and tns: "\<forall>c\<in>set t. \<not> is_space c"
    by (simp_all add: is_token_def list_all_iff)
  from tns have "\<forall>c\<in>set t. in_class Dot c" using is_space_LF by auto
  then have "takeWhile (in_class Dot) (t @ rest) = t @ takeWhile (in_class Dot) rest"
    by (simp add: takeWhile_append2)
  then have le: "length t \<le> ?n" by simp
  from tne have pos: "1 \<le> length t" by (cases t) auto
  from le obtain k where k: "Suc ?n = length t + k"
    by (auto simp add: le_iff_add)
  have "[1 ..< length t + k] = [1 ..< length t] @ [length t ..< length t + k]"
    using pos by (rule upt_add_eq_append)
  then have "[1 ..< Suc ?n] = [1 ..< length t] @ [length t ..< Suc ?n]"
    by (simp only: k)
  also have "[length t ..< Suc ?n] = length t # [Suc (length t) ..< Suc ?n]"
    using le by (simp add: upt_conv_Cons)
  finally have cand: "candidates (Dot, Lazy) (t @ rest) =
      [1 ..< length t] @ length t # [Suc (length t) ..< Suc ?n]"
    by (simp only: candidates_Lazy)
  have early: "\<forall>k\<in>set [1 ..< length t]. ?f k = None"
  proof
    fix k assume "k \<in> set [1 ..< length t]"
    then have k: "k < length t" by simp
    then have "drop k t \<noteq> []" by simp
    moreover have "hd (drop k t) \<in> set t"
      using k by (simp add: hd_drop_conv_nth)
    ultimately have "\<not> is_space (hd (drop k (t @ rest)))"
      using tns k by (simp add: hd_append)
    then have "match_items ((Space, Greedy) # its) (drop k (t @ rest)) = None"
      by (intro space_item_fails) simp
    then show "?f k = None" by (simp only: option.simps)
  qed
  have "match_items ((Dot, Lazy) # (Space, Greedy) # its) (t @ rest) =
      first_some ?f (candidates (Dot, Lazy) (t @ rest))"
    by (rule match_items_Cons)
  also have "\<dots> = first_some ?f (length t # [Suc (length t) ..< Suc ?n])"
    unfolding cand using early by (rule first_some_skip)
  also have "\<dots> = Some (t # spans)"
    by (simp only: first_some.simps drop_append drop_all order_refl diff_self_eq_0 drop_0
        append_Nil assms(4) option.map option.case take_append take_all take_0 append_Nil2)
  finally show ?thesis .
qed

text \<open>The lazy first item on an indented line: one character is enough.\<close>

lemma lazy_indent_step:
  assumes "c \<noteq> CHR 0x0A" and "match_items its s = Some spans"
  shows "match_items ((Dot, Lazy) # its) (c # s) = Some ([c] # spans)"
proof -
  from assms(1) obtain n where "length (takeWhile (in_class Dot) (c # s)) = Suc n"
    by simp
  then have "candidates (Dot, Lazy) (c # s) = 1 # [Suc 1 ..< Suc (Suc n)]"
    by (simp only: candidates_Lazy) (simp add: upt_conv_Cons del: upt_Suc)
  then show ?thesis
    using assms(2) by (simp only: match_items_Cons first_some.simps) simp
qed

lemma token_front: "is_token t \<Longrightarrow> t @ s = [] \<or> \<not> is_space (hd (t @ s))"
  by (cases t) (simp_all add: is_token_def)

lemma gap_front: "is_gap w \<Longrightarrow> w @ s \<noteq> [] \<and> is_space (hd (w @ s))"
  by (cases w) (simp_all add: is_gap_def)

lemma match_token:
  assumes "is_token t" and "rest = [] \<or> is_space (hd rest)"
    and "match_items its rest = Some spans"
  shows "match_items ((NonSpace, Greedy) # its) (t @ rest) = Some (t # spans)"
proof (rule greedy_step)
  from assms(1) show "t \<noteq> []" and "list_all (in_class NonSpace) t"
    by (simp_all add: is_token_def in_class_NonSpace)
  from assms(2) show "rest = [] \<or> \<not> in_class NonSpace (hd rest)" by simp
  from assms(3) show "match_items its rest = Some spans" .
qed

lemma match_gap:
  assumes "is_gap w" and "rest = [] \<or> \<not> is_space (hd rest)"
    and "match_items its rest = Some spans"
  shows "match_items ((Space, Greedy) # its) (w @ rest) = Some (w # spans)"
proof (rule greedy_step)
  from assms(1) show "w \<noteq> []" and "list_all (in_class Space) w"
    by (simp_all add: is_gap_def in_class_Space)
  from assms(2) show "rest = [] \<or> \<not> in_class Space (hd rest)" by simp
  from assms(3) show "match_items its rest = Some spans" .
qed

lemma match_three_fields:
  assumes "is_gap w1" "is_token t2" "is_gap w2" "is_token t3" "is_gap w3" "is_token t4"
    and "rest = [] \<or> is_space (hd rest)"
  shows "match_items [(Space, Greedy), (NonSpace, Greedy), (Space, Greedy),
            (NonSpace, Greedy), (Space, Greedy), (NonSpace, Greedy)]
           (w1 @ t2 @ w2 @ t3 @ w3 @ t4 @ rest) = Some [w1, t2, w2, t3, w3, t4]"
proof -
  have e: "match_items [] rest = Some []" by simp
  have g: "is_gap w \<Longrightarrow> w @ s = [] \<or> is_space (hd (w @ s))" for w s
    using gap_front [of w s] by blast
  note s6 = match_token [OF assms(6,7) e]
  note s5 = match_gap [OF assms(5) token_front [OF assms(6)] s6]
  note s4 = match_token [OF assms(4) g [OF assms(5)] s5]
  note s3 = match_gap [OF assms(3) token_front [OF assms(4)] s4]
  note s2 = match_token [OF assms(2) g [OF assms(3)] s3]
  show ?thesis
    by (rule match_gap [OF assms(1) token_front [OF assms(2)] s2])
qed

lemma strip_token: "is_token t \<Longrightarrow> strip t = t"
proof -
  assume t: "is_token t"
  then have "dropWhile is_space t = t"
    by (cases t) (simp_all add: is_token_def)
  moreover from t have "dropWhile is_space (rev t) = rev t"
    by (cases "rev t") (auto simp add: is_token_def list_all_iff)
  ultimately show ?thesis by (simp add: strip_def lstrip_def rstrip_def)
qed

lemma re_match_four_fields:
  assumes "is_token t1" "is_gap w1" "is_token t2" "is_gap w2" "is_token t3" "is_gap w3"
    "is_token t4" and "rest = [] \<or> is_space (hd rest)"
  shows "re_match (t1 @ w1 @ t2 @ w2 @ t3 @ w3 @ t4 @ rest) = Some (t1, t2, t3, t4)"
proof -
  from gap_front [OF assms(2)]
  have ne: "w1 @ t2 @ w2 @ t3 @ w3 @ t4 @ rest \<noteq> []"
    and sp: "is_space (hd (w1 @ t2 @ w2 @ t3 @ w3 @ t4 @ rest))"
    by blast+
  have "match_items pattern (t1 @ w1 @ t2 @ w2 @ t3 @ w3 @ t4 @ rest) =
      Some [t1, w1, t2, w2, t3, w3, t4]"
    unfolding pattern_def
    by (rule lazy_token_step [OF assms(1) ne sp match_three_fields [OF assms(2-8)]])
  then show ?thesis by (simp only: re_match_def option.case list.case)
qed

text \<open>
  Claim C8. A line made of a token, whitespace, a token, whitespace, a token,
  whitespace and a token (and then nothing, or whitespace and anything) matches; the
  name is the first token and the identifier the second. A line that does not match
  adds nothing to the result, and the parser shows nothing for it.
\<close>

theorem four_fields_give_name_and_id:
  assumes "is_token t1" "is_gap w1" "is_token t2" "is_gap w2" "is_token t3" "is_gap w3"
    "is_token t4" and "rest = [] \<or> is_space (hd rest)"
  shows "re_match (t1 @ w1 @ t2 @ w2 @ t3 @ w3 @ t4 @ rest) = Some (t1, t2, t3, t4)
       \<and> parse_lines ((t1 @ w1 @ t2 @ w2 @ t3 @ w3 @ t4 @ rest) # ls) = (t1, t2) # parse_lines ls
       \<and> (re_match l = None \<longrightarrow> parse_lines (l # ls) = parse_lines ls)
       \<and> (3 < length (splitlines out) \<longrightarrow>
            parse_winget_search out = ([], Some (parse_lines (drop 3 (splitlines out)))))"
proof -
  note m = re_match_four_fields [OF assms]
  have "parse_lines ((t1 @ w1 @ t2 @ w2 @ t3 @ w3 @ t4 @ rest) # ls) =
      (strip t1, strip t2) # parse_lines ls"
    by (simp only: parse_lines.simps m option.case prod.case)
  then have p: "parse_lines ((t1 @ w1 @ t2 @ w2 @ t3 @ w3 @ t4 @ rest) # ls) =
      (t1, t2) # parse_lines ls"
    by (simp only: strip_token [OF assms(1)] strip_token [OF assms(3)])
  have d: "re_match l = None \<longrightarrow> parse_lines (l # ls) = parse_lines ls"
    by simp
  have w: "3 < length (splitlines out) \<longrightarrow>
      parse_winget_search out = ([], Some (parse_lines (drop 3 (splitlines out))))"
    by (simp add: parse_winget_search_def)
  from m p d w show ?thesis by blast
qed

theorem four_fields_give_name_and_id_witness:
  "is_token ''7-Zip'' \<and> is_gap ''   '' \<and> is_token ''7zip.7zip'' \<and> is_token ''23.01''
   \<and> is_token ''winget''
   \<and> parse_lines [''7-Zip'' @ ''   '' @ ''7zip.7zip'' @ ''   '' @ ''23.01'' @ ''   '' @ ''winget'' @ []] =
       [(''7-Zip'', ''7zip.7zip'')]"
proof -
  have t: "is_token ''7-Zip''" "is_token ''7zip.7zip''" "is_token ''23.01''" "is_token ''winget''"
    by (simp_all add: is_token_def is_space_def)
  have g: "is_gap ''   ''" by (simp add: is_gap_def is_space_def)
  have r: "([] :: string) = [] \<or> is_space (hd [])" by simp
  from four_fields_give_name_and_id [OF t(1) g t(2) g t(3) g t(4) r, of "[]"]
  have "parse_lines [''7-Zip'' @ ''   '' @ ''7zip.7zip'' @ ''   '' @ ''23.01'' @ ''   '' @ ''winget'' @ []] =
       (''7-Zip'', ''7zip.7zip'') # parse_lines []"
    by blast
  then have p: "parse_lines [''7-Zip'' @ ''   '' @ ''7zip.7zip'' @ ''   '' @ ''23.01'' @ ''   '' @ ''winget'' @ []] =
       [(''7-Zip'', ''7zip.7zip'')]"
    by (simp only: parse_lines.simps)
  from t g p show ?thesis by blast
qed

text \<open>
  Claim C10. A line of the search output that begins with two or more whitespace
  characters and goes on with three tokens separated by whitespace matches as well
  (in app.py and in ap2.py, whose parsers are the same): the first group is the
  first whitespace character alone, so the name is empty after trimming, and the
  identifier is the first token of the line.
\<close>

theorem indented_line_shifts_fields:
  assumes "is_gap w0" and "2 \<le> length w0"
    and "is_token t1" "is_gap w1" "is_token t2" "is_gap w2" "is_token t3"
    and "rest = [] \<or> is_space (hd rest)"
    and "w0 @ t1 @ w1 @ t2 @ w2 @ t3 @ rest \<in> set (splitlines out)"
  shows "re_match (w0 @ t1 @ w1 @ t2 @ w2 @ t3 @ rest) = Some ([hd w0], t1, t2, t3)
       \<and> parse_lines ((w0 @ t1 @ w1 @ t2 @ w2 @ t3 @ rest) # ls) = ([], t1) # parse_lines ls"
proof -
  from assms(1,2) obtain c w where w0: "w0 = c # w" and w: "is_gap w" and c: "is_space c"
    by (cases w0; cases "tl w0") (auto simp add: is_gap_def)
  from splitlines_no_LF [OF assms(9)] have nl: "c \<noteq> CHR 0x0A" by (auto simp add: w0)
  have "match_items pattern (c # (w @ t1 @ w1 @ t2 @ w2 @ t3 @ rest)) =
      Some [[c], w, t1, w1, t2, w2, t3]"
    unfolding pattern_def
    using nl match_three_fields [OF w assms(3-8)] by (rule lazy_indent_step)
  then have "re_match (c # (w @ t1 @ w1 @ t2 @ w2 @ t3 @ rest)) = Some ([c], t1, t2, t3)"
    by (simp only: re_match_def option.case list.case)
  then have m: "re_match (w0 @ t1 @ w1 @ t2 @ w2 @ t3 @ rest) = Some ([hd w0], t1, t2, t3)"
    by (simp add: w0)
  have sc: "strip [c] = []" using c by (simp add: strip_def lstrip_def rstrip_def)
  have "parse_lines ((w0 @ t1 @ w1 @ t2 @ w2 @ t3 @ rest) # ls) =
      (strip [hd w0], strip t1) # parse_lines ls"
    by (simp only: parse_lines.simps m option.case prod.case)
  then have "parse_lines ((w0 @ t1 @ w1 @ t2 @ w2 @ t3 @ rest) # ls) = ([], t1) # parse_lines ls"
    using sc by (simp add: w0 strip_token [OF assms(3)])
  with m show ?thesis by blast
qed

theorem indented_line_shifts_fields_witness:
  "is_gap ''  '' \<and> 2 \<le> length ''  '' \<and> is_token ''7-Zip'' \<and> is_gap '' ''
   \<and> is_token ''7zip.7zip'' \<and> is_token ''23.01''
   \<and> ''  '' @ ''7-Zip'' @ '' '' @ ''7zip.7zip'' @ '' '' @ ''23.01'' @ []
       \<in> set (splitlines (''  7-Zip 7zip.7zip 23.01'' @ [CHR 0x0A]))
   \<and> parse_lines [''  '' @ ''7-Zip'' @ '' '' @ ''7zip.7zip'' @ '' '' @ ''23.01'' @ []] =
       [([], ''7-Zip'')]"
proof -
  have t: "is_token ''7-Zip''" "is_token ''7zip.7zip''" "is_token ''23.01''"
    by (simp_all add: is_token_def is_space_def)
  have g: "is_gap ''  ''" "is_gap '' ''" by (simp_all add: is_gap_def is_space_def)
  have l: "2 \<le> length ''  ''" by simp
  have r: "([] :: string) = [] \<or> is_space (hd [])" by simp
  have s: "''  '' @ ''7-Zip'' @ '' '' @ ''7zip.7zip'' @ '' '' @ ''23.01'' @ []
       \<in> set (splitlines (''  7-Zip 7zip.7zip 23.01'' @ [CHR 0x0A]))"
    by (simp add: splitlines_def is_linebreak_def)
  from indented_line_shifts_fields [OF g(1) l t(1) g(2) t(2) g(2) t(3) r s, of "[]"]
  have "parse_lines [''  '' @ ''7-Zip'' @ '' '' @ ''7zip.7zip'' @ '' '' @ ''23.01'' @ []] =
       ([], ''7-Zip'') # parse_lines []"
    by blast
  then have p: "parse_lines [''  '' @ ''7-Zip'' @ '' '' @ ''7zip.7zip'' @ '' '' @ ''23.01'' @ []] =
       [([], ''7-Zip'')]"
    by (simp only: parse_lines.simps)
  from t g l s p show ?thesis by blast
qed

subsection \<open>Short search output\<close>

text \<open>
  Claim C4. For an output of at most three lines \<open>parse_winget_search\<close> shows "No
  applications found with the given name" and returns without a result (Python's
  \<open>None\<close>), whatever the text is; nothing in it can raise. The search branch that
  received this output with an empty stderr then ends: the turn is the search command
  and that message, with no radio, no button and no install command.
\<close>

theorem short_output_gives_no_results:
  assumes "length (splitlines out) \<le> 3"
  shows "parse_winget_search out = ([StError ''No applications found with the given name''], None)
       \<and> (run (os env) (search_command (search_term r)) = Inr (out, []) \<longrightarrow>
            winget_search_branch run env r =
              [Shell (search_command (search_term r)) (Inr (out, [])),
               StError ''No applications found with the given name''])"
  using assms by (simp add: parse_winget_search_def winget_search_branch_def)

theorem short_output_gives_no_results_witness:
  "length (splitlines (''Name   Id'' @ [CHR 0x0A] @ ''---------'' @ [CHR 0x0A])) \<le> 3
   \<and> parse_winget_search (''Name   Id'' @ [CHR 0x0A] @ ''---------'' @ [CHR 0x0A]) =
       ([StError ''No applications found with the given name''], None)
   \<and> length (splitlines []) \<le> 3
   \<and> run_command (os env_idle) (search_command (search_term ''WINGET_SEARCH: zzz'')) = Inr ([], [])
   \<and> winget_search_branch run_command env_idle ''WINGET_SEARCH: zzz'' =
       [Shell (search_command (search_term ''WINGET_SEARCH: zzz'')) (Inr ([], [])),
        StError ''No applications found with the given name'']"
proof -
  have a: "length (splitlines (''Name   Id'' @ [CHR 0x0A] @ ''---------'' @ [CHR 0x0A])) \<le> 3"
    by (simp add: splitlines_def is_linebreak_def)
  have b: "length (splitlines []) \<le> 3" by (simp add: splitlines_def)
  have st: "search_term ''WINGET_SEARCH: zzz'' = ''zzz''"
    by (simp add: search_term_def payload_def marker_defs replace.simps strip_def lstrip_def
        rstrip_def is_space_def)
  have c: "run_command (os env_idle) (search_command (search_term ''WINGET_SEARCH: zzz'')) =
      Inr ([], [])"
    by (simp add: st search_command_def run_command_def subprocess_run_def env_idle_def
        os_silent_def)
  from short_output_gives_no_results [OF a]
  have p: "parse_winget_search (''Name   Id'' @ [CHR 0x0A] @ ''---------'' @ [CHR 0x0A]) =
       ([StError ''No applications found with the given name''], None)"
    by blast
  from short_output_gives_no_results [OF b, of run_command env_idle "''WINGET_SEARCH: zzz''"] c
  have q: "winget_search_branch run_command env_idle ''WINGET_SEARCH: zzz'' =
       [Shell (search_command (search_term ''WINGET_SEARCH: zzz'')) (Inr ([], [])),
        StError ''No applications found with the given name'']"
    by blast
  from a b c p q show ?thesis by blast
qed

subsection \<open>The error stream\<close>

lemma stderr_respected_select:
  "stderr_respected (select_and_install run env rs)"
  by (simp add: select_and_install_def Let_def split: list.splits prod.splits sum.splits)

lemma stderr_respected_search:
  "stderr_respected (winget_search_branch run env r)"
  by (auto simp add: winget_search_branch_def parse_winget_search_def Let_def
      stderr_respected_select split: sum.splits prod.splits option.splits list.splits if_splits)

lemma stderr_respected_install:
  "stderr_respected (winget_install_branch env r)"
  by (simp add: winget_install_branch_def Let_def split: sum.splits prod.splits)

lemma stderr_respected_sleep:
  "stderr_respected (powershell_sleep_branch env r)"
  by (simp add: powershell_sleep_branch_def Let_def
      split: option.splits sum.splits prod.splits exn.splits)

lemma stderr_respected_else_ap2:
  "stderr_respected (else_branch_ap2 env r)"
  by (simp add: else_branch_ap2_def split: sum.splits prod.splits)

lemma stderr_respected_last:
  "stderr_respected evs \<Longrightarrow> Shell c (Inr (out, err)) \<in> set evs \<Longrightarrow> err \<noteq> [] \<Longrightarrow>
   last evs = StError err"
proof (induction evs)
  case Nil
  then show ?case by simp
next
  case (Cons ev evs)
  show ?case
  proof (cases "\<exists>command out' err'. ev = Shell command (Inr (out', err')) \<and> err' \<noteq> []")
    case True
    then obtain command out' err'
      where ev: "ev = Shell command (Inr (out', err'))" and ne: "err' \<noteq> []"
      by blast
    with Cons.prems(1) have "evs = [StError err']" by simp
    with Cons.prems(2) ev show ?thesis by auto
  next
    case False
    with Cons.prems(1) have r: "stderr_respected evs"
      by (cases "ev # evs" rule: stderr_respected.cases) auto
    from Cons.prems(2,3) False have m: "Shell c (Inr (out, err)) \<in> set evs" by auto
    from r m Cons.prems(3) have "last evs = StError err" by (rule Cons.IH)
    moreover from m have "evs \<noteq> []" by auto
    ultimately show ?thesis by simp
  qed
qed

lemma success_is_last_select:
  assumes m: "StSuccess s \<in> set (select_and_install run env rs)"
  shows "last (select_and_install run env rs) = StSuccess s"
proof (cases "filter (\<lambda>(name, ident). name = st_radio env (map fst rs)) rs")
  case Nil
  with m show ?thesis by (simp add: select_and_install_def)
next
  case (Cons x xs)
  obtain name ident where x: "x = (name, ident)" by (cases x)
  show ?thesis
  proof (cases "install_pressed env")
    case False
    with m Cons x show ?thesis by (simp add: select_and_install_def)
  next
    case True
    show ?thesis
    proof (cases "run (os env) (install_command ident)")
      case (Inl e)
      with m Cons x True show ?thesis by (simp add: select_and_install_def)
    next
      case (Inr p)
      obtain out err where p: "p = (out, err)" by (cases p)
      from m Cons x True Inr p show ?thesis
        by (cases "err = []") (simp_all add: select_and_install_def)
    qed
  qed
qed

lemma success_is_last_search:
  assumes m: "StSuccess s \<in> set (winget_search_branch run env r)"
  shows "last (winget_search_branch run env r) = StSuccess s"
proof (cases "run (os env) (search_command (search_term r))")
  case (Inl e)
  with m show ?thesis by (simp add: winget_search_branch_def)
next
  case (Inr p)
  obtain out err where p: "p = (out, err)" by (cases p)
  show ?thesis
  proof (cases "err \<noteq> []")
    case True
    with m Inr p show ?thesis by (simp add: winget_search_branch_def)
  next
    case False
    show ?thesis
    proof (cases "length (splitlines out) \<le> 3")
      case True
      with Inr p False m show ?thesis
        by (simp add: winget_search_branch_def parse_winget_search_def)
    next
      case long: False
      show ?thesis
      proof (cases "parse_lines (drop 3 (splitlines out))")
        case Nil
        with Inr p False long m show ?thesis
          by (simp add: winget_search_branch_def parse_winget_search_def)
      next
        case (Cons x xs)
        with Inr p False long
        have b: "winget_search_branch run env r =
            Shell (search_command (search_term r)) (Inr (out, [])) #
            select_and_install run env (x # xs)"
          by (simp add: winget_search_branch_def parse_winget_search_def)
        have ne: "select_and_install run env (x # xs) \<noteq> []"
          by (simp add: select_and_install_def Let_def)
        from m b have "StSuccess s \<in> set (select_and_install run env (x # xs))" by simp
        then have "last (select_and_install run env (x # xs)) = StSuccess s"
          by (rule success_is_last_select)
        with b ne show ?thesis by simp
      qed
    qed
  qed
qed

lemma success_is_last_install:
  "StSuccess s \<in> set (winget_install_branch env r) \<Longrightarrow>
   last (winget_install_branch env r) = StSuccess s"
  by (auto simp add: winget_install_branch_def Let_def
      split: sum.splits prod.splits if_splits)

lemma success_is_last_sleep:
  "StSuccess s \<in> set (powershell_sleep_branch env r) \<Longrightarrow>
   last (powershell_sleep_branch env r) = StSuccess s"
  by (auto simp add: powershell_sleep_branch_def Let_def
      split: option.splits sum.splits prod.splits exn.splits if_splits)

lemma success_is_last_else_ap2:
  "StSuccess s \<in> set (else_branch_ap2 env r) \<Longrightarrow>
   last (else_branch_ap2 env r) = StSuccess s"
  by (auto simp add: else_branch_ap2_def split: sum.splits prod.splits if_splits)

lemma stderr_respected_app: "stderr_respected (app_process env r)"
  by (simp add: app_process_def stderr_respected_search stderr_respected_install
      stderr_respected_sleep else_branch_def)

lemma stderr_respected_ap2: "stderr_respected (ap2_process env r)"
  by (simp add: ap2_process_def stderr_respected_search stderr_respected_else_ap2)

lemma success_is_last_app:
  "StSuccess s \<in> set (app_process env r) \<Longrightarrow> last (app_process env r) = StSuccess s"
  by (simp add: app_process_def else_branch_def success_is_last_search
      success_is_last_install success_is_last_sleep split: if_splits)

lemma success_is_last_ap2:
  "StSuccess s \<in> set (ap2_process env r) \<Longrightarrow> last (ap2_process env r) = StSuccess s"
  by (simp add: ap2_process_def success_is_last_search success_is_last_else_ap2
      split: if_splits)

text \<open>
  Claim C5. Let \<open>T\<close> be the turn of app.py or of ap2.py on any response in any
  environment, so whichever flow handled it (search, the install that follows a search,
  direct install, sleep, raw command). The turn honours the error stream, and if some
  command of the turn came back from \<open>run_command\<close> with a non-empty stderr, whatever
  its stdout, then the turn ends with \<open>st.error\<close> of that stderr and \<open>st.success\<close> is
  called nowhere in it.
\<close>

theorem stderr_takes_error_path:
  assumes "T = app_process env r \<or> T = ap2_process env r"
  shows "stderr_respected T
       \<and> (\<forall>c out err s. Shell c (Inr (out, err)) \<in> set T \<longrightarrow> err \<noteq> [] \<longrightarrow>
            last T = StError err \<and> StSuccess s \<notin> set T)"
proof -
  from assms have r: "stderr_respected T"
    using stderr_respected_app stderr_respected_ap2 by blast
  have "last T = StError err \<and> StSuccess s \<notin> set T"
    if "Shell c (Inr (out, err)) \<in> set T" and "err \<noteq> []" for c out err s
  proof -
    from r that have "last T = StError err" by (rule stderr_respected_last)
    moreover have "StSuccess s \<notin> set T"
    proof
      assume "StSuccess s \<in> set T"
      with assms have "last T = StSuccess s"
        using success_is_last_app success_is_last_ap2 by blast
      with \<open>last T = StError err\<close> show False by simp
    qed
    ultimately show ?thesis by blast
  qed
  with r show ?thesis by blast
qed

theorem stderr_takes_error_path_witness:
  "app_process env_failing ''WINGET_INSTALL: x'' =
     [Shell (install_command ''x'') (Inr (''partial output'', ''access denied'')),
      StError ''access denied'']
   \<and> stderr_respected (app_process env_failing ''WINGET_INSTALL: x'')
   \<and> last (app_process env_failing ''WINGET_INSTALL: x'') = StError ''access denied''
   \<and> StSuccess (''Installation output:'' @ [CHR 0x0A] @ ''partial output'')
       \<notin> set (app_process env_failing ''WINGET_INSTALL: x'')
   \<and> ap2_process env_failing ''dir'' =
       [StButton (''Confirm execution: dir''),
        Shell ''dir'' (Inr (''partial output'', ''access denied'')),
        StError ''access denied'']
   \<and> last (ap2_process env_failing ''dir'') = StError ''access denied''"
proof -
  have a: "app_process env_failing ''WINGET_INSTALL: x'' =
     [Shell (install_command ''x'') (Inr (''partial output'', ''access denied'')),
      StError ''access denied'']"
    by (simp add: eval_defs env_failing_def os_failing_def)
  have b: "ap2_process env_failing ''dir'' =
       [StButton (''Confirm execution: dir''),
        Shell ''dir'' (Inr (''partial output'', ''access denied'')),
        StError ''access denied'']"
    by (simp add: eval_defs env_failing_def os_failing_def)
  have ne: "''access denied'' \<noteq> []" by simp
  have ma: "Shell (install_command ''x'') (Inr (''partial output'', ''access denied''))
      \<in> set (app_process env_failing ''WINGET_INSTALL: x'')"
    by (simp only: a list.set insert_iff simp_thms)
  have mb: "Shell ''dir'' (Inr (''partial output'', ''access denied''))
      \<in> set (ap2_process env_failing ''dir'')"
    by (simp only: b list.set insert_iff simp_thms)
  note ia = stderr_takes_error_path
    [of "app_process env_failing ''WINGET_INSTALL: x''" env_failing "''WINGET_INSTALL: x''"]
  note ib = stderr_takes_error_path
    [of "ap2_process env_failing ''dir''" env_failing "''dir''"]
  from ia ma ne have ra: "stderr_respected (app_process env_failing ''WINGET_INSTALL: x'')
     \<and> last (app_process env_failing ''WINGET_INSTALL: x'') = StError ''access denied''
     \<and> StSuccess (''Installation output:'' @ [CHR 0x0A] @ ''partial output'')
         \<notin> set (app_process env_failing ''WINGET_INSTALL: x'')"
    by blast
  from ib mb ne have rb: "last (ap2_process env_failing ''dir'') = StError ''access denied''"
    by blast
  from a b ra rb show ?thesis by blast
qed

end
